theory Spec2Isabelle
  imports Complex_Main "HOL-Library.Multiset"
begin

section \<open>Numbers and failures\<close>

text \<open>
  The module \<^verbatim>\<open>scripts/util.py\<close> is a set of numeric helpers for A/B tests. Its
  arithmetic is embedded over the real numbers: the rounding of IEEE doubles is not
  modelled, every other outcome of the Python code is. The arguments are Python numbers.
  A Python-level failure is a value of \<open>error\<close>: dividing Python numbers by zero raises
  \<^verbatim>\<open>ZeroDivisionError\<close>, reading a local that no branch assigned raises
  \<^verbatim>\<open>UnboundLocalError\<close>. NumPy scalars do not raise: \<^verbatim>\<open>np.sqrt\<close> of a negative number
  is \<^verbatim>\<open>nan\<close>, and dividing a \<^verbatim>\<open>np.float64\<close> by zero is \<^verbatim>\<open>inf\<close>, \<^verbatim>\<open>-inf\<close> or \<^verbatim>\<open>nan\<close>
  (with a warning); these are the values of \<open>npfloat\<close> beside the finite ones.
\<close>

datatype error = ZeroDivisionError | UnboundLocalError

datatype npfloat = Finite real | PosInf | NegInf | NaN

fun is_finite :: "npfloat \<Rightarrow> bool" where
  "is_finite (Finite x) = True"
| "is_finite PosInf = False"
| "is_finite NegInf = False"
| "is_finite NaN = False"

fun np_sgn :: "npfloat \<Rightarrow> real" where
  "np_sgn (Finite x) = sgn x"
| "np_sgn PosInf = 1"
| "np_sgn NegInf = - 1"
| "np_sgn NaN = 0"

text \<open>The infinity of a given sign; a zero sign (as in \<^verbatim>\<open>inf * 0\<close> or \<^verbatim>\<open>0 / 0\<close>) is \<^verbatim>\<open>nan\<close>.\<close>

definition np_inf :: "real \<Rightarrow> npfloat" where
  "np_inf s = (if 0 < s then PosInf else if s < 0 then NegInf else NaN)"

fun np_add :: "npfloat \<Rightarrow> npfloat \<Rightarrow> npfloat" where
  "np_add (Finite x) (Finite y) = Finite (x + y)"
| "np_add NaN b = NaN"
| "np_add a NaN = NaN"
| "np_add PosInf NegInf = NaN"
| "np_add NegInf PosInf = NaN"
| "np_add PosInf b = PosInf"
| "np_add a PosInf = PosInf"
| "np_add NegInf b = NegInf"
| "np_add a NegInf = NegInf"

fun np_mul :: "npfloat \<Rightarrow> npfloat \<Rightarrow> npfloat" where
  "np_mul (Finite x) (Finite y) = Finite (x * y)"
| "np_mul NaN b = NaN"
| "np_mul a NaN = NaN"
| "np_mul a b = np_inf (np_sgn a * np_sgn b)"

text \<open>\<^verbatim>\<open>a ** 2\<close> on a NumPy scalar.\<close>

definition np_square :: "npfloat \<Rightarrow> npfloat" where
  "np_square a = np_mul a a"

text \<open>
  Division with a NumPy scalar on either side. A zero divisor is \<^verbatim>\<open>+0.0\<close>: in this
  module the divisors are a square and a square root.
\<close>

fun np_div :: "npfloat \<Rightarrow> npfloat \<Rightarrow> npfloat" where
  "np_div (Finite x) (Finite y) = (if y = 0 then np_inf (sgn x) else Finite (x / y))"
| "np_div NaN b = NaN"
| "np_div a NaN = NaN"
| "np_div (Finite x) b = Finite 0"
| "np_div a (Finite y) = np_inf (np_sgn a * (if y < 0 then - 1 else 1))"
| "np_div a b = NaN"


text \<open>\<^verbatim>\<open>np.sqrt\<close>: \<^verbatim>\<open>nan\<close> below zero.\<close>

fun np_sqrt :: "npfloat \<Rightarrow> npfloat" where
  "np_sqrt (Finite x) = (if x < 0 then NaN else Finite (sqrt x))"
| "np_sqrt PosInf = PosInf"
| "np_sqrt NegInf = NaN"
| "np_sqrt NaN = NaN"

section \<open>The frozen normal distribution of \<^verbatim>\<open>scipy.stats\<close>\<close>

text \<open>
  \<^verbatim>\<open>scipy.stats\<close> is a library the module imports; its normal distribution is taken
  with its mathematical meaning. The cumulative distribution function of the standard
  normal distribution is \<open>1/2 + (\<integral>\<^sub>0\<^sup>x exp (- t\<^sup>2 / 2) dt) / sqrt (2 pi)\<close>; the integral is written
  as its power series, the term-wise integral of the series of \<open>exp (- t\<^sup>2 / 2)\<close>.
\<close>

definition std_norm_term :: "real \<Rightarrow> nat \<Rightarrow> real" where
  "std_norm_term x n = x ^ (2 * n + 1) / (2 ^ n * fact n * real (2 * n + 1))"

definition std_norm_cdf :: "real \<Rightarrow> real" where
  "std_norm_cdf x = 1 / 2 + (\<Sum>n. (- 1) ^ n * std_norm_term x n) / sqrt (2 * pi)"

text \<open>
  The same series as a power series in \<open>x\<close>, with the coefficient of every even power
  zero; it is the form in which the series is differentiated.
\<close>

definition std_norm_coeff :: "nat \<Rightarrow> real" where
  "std_norm_coeff k =
     (if even k then 0
      else (- 1) ^ ((k - 1) div 2) / (2 ^ ((k - 1) div 2) * fact ((k - 1) div 2) * real k))"

text \<open>The quantile at \<open>q\<close> is the point where the distribution function is \<open>q\<close>.\<close>

definition std_norm_quantile :: "real \<Rightarrow> real" where
  "std_norm_quantile q = (THE z. std_norm_cdf z = q)"

text \<open>
  \<^verbatim>\<open>scs.norm(loc, scale)\<close> freezes a normal distribution; the object is its two
  parameters. \<^verbatim>\<open>scs.norm()\<close> is \<^verbatim>\<open>scs.norm(0, 1)\<close>.
\<close>

record norm_dist =
  dist_loc :: real
  dist_scale :: real

definition scs_norm :: "real \<Rightarrow> real \<Rightarrow> norm_dist" where
  "scs_norm m s = \<lparr>dist_loc = m, dist_scale = s\<rparr>"

text \<open>
  The percent point function (inverse of the distribution function): \<^verbatim>\<open>nan\<close> for a
  scale that is not positive or a probability outside \<open>[0, 1]\<close>, the infinities at
  \<open>0\<close> and \<open>1\<close>.
\<close>

definition ppf :: "norm_dist \<Rightarrow> real \<Rightarrow> npfloat" where
  "ppf d q =
     (if dist_scale d \<le> 0 \<or> q < 0 \<or> 1 < q then NaN
      else if q = 0 then NegInf
      else if q = 1 then PosInf
      else Finite (dist_loc d + dist_scale d * std_norm_quantile q))"

text \<open>The survival function \<open>1 - cdf\<close>.\<close>

definition sf :: "norm_dist \<Rightarrow> npfloat \<Rightarrow> npfloat" where
  "sf d z =
     (if dist_scale d \<le> 0 then NaN
      else case z of
        Finite x \<Rightarrow> Finite (1 - std_norm_cdf ((x - dist_loc d) / dist_scale d))
      | PosInf \<Rightarrow> Finite 0
      | NegInf \<Rightarrow> Finite 1
      | NaN \<Rightarrow> NaN)"

section \<open>Pooled statistics\<close>

text \<open>
  \<^verbatim>\<open>
  def pooled_prob(N_A, N_B, X_A, X_B):
      return (X_A + X_B) / (N_A + N_B)
  \<close>
\<close>

definition pooled_prob :: "real \<Rightarrow> real \<Rightarrow> real \<Rightarrow> real \<Rightarrow> error + real" where
  "pooled_prob N_A N_B X_A X_B =
     (if N_A + N_B = 0 then Inl ZeroDivisionError
      else Inr ((X_A + X_B) / (N_A + N_B)))"

text \<open>
  \<^verbatim>\<open>
  def pooled_SE(N_A, N_B, X_A, X_B):
      p_hat = pooled_prob(N_A, N_B, X_A, X_B)
      SE = np.sqrt(p_hat * (1 - p_hat) * (1 / N_A + 1 / N_B))
      return SE
  \<close>
  The call of \<open>pooled_prob\<close> comes first, then \<^verbatim>\<open>1 / N_A\<close>, then \<^verbatim>\<open>1 / N_B\<close>.
\<close>

definition pooled_SE :: "real \<Rightarrow> real \<Rightarrow> real \<Rightarrow> real \<Rightarrow> error + npfloat" where
  "pooled_SE N_A N_B X_A X_B =
     (case pooled_prob N_A N_B X_A X_B of
        Inl e \<Rightarrow> Inl e
      | Inr p_hat \<Rightarrow>
          if N_A = 0 then Inl ZeroDivisionError
          else if N_B = 0 then Inl ZeroDivisionError
          else Inr (np_sqrt (Finite (p_hat * (1 - p_hat) * (1 / N_A + 1 / N_B)))))"

section \<open>Critical value\<close>

text \<open>
  \<^verbatim>\<open>
  def z_val(sig_level=0.05, two_tailed=True):
      z_dist = scs.norm()
      if two_tailed:
          sig_level = sig_level/2
          area = 1 - sig_level
      else:
          area = 1 - sig_level
      z = z_dist.ppf(area)
      return z
  \<close>
\<close>

definition z_val :: "real \<Rightarrow> bool \<Rightarrow> npfloat" where
  "z_val sig_level two_tailed =
     (let z_dist = scs_norm 0 1;
          area = (if two_tailed then 1 - sig_level / 2 else 1 - sig_level);
          z = ppf z_dist area
      in z)"

section \<open>The distribution of a group\<close>

text \<open>
  \<^verbatim>\<open>
  def ab_dist(stderr, d_hat=0, group_type='control'):
      if group_type == 'control':
          sample_mean = 0
      elif group_type == 'test':
          sample_mean = d_hat
      dist = scs.norm(sample_mean, stderr)
      return dist
  \<close>
  With any other \<open>group_type\<close> no branch assigns \<^verbatim>\<open>sample_mean\<close>, and reading it raises.
\<close>

definition ab_dist :: "real \<Rightarrow> real \<Rightarrow> string \<Rightarrow> error + norm_dist" where
  "ab_dist stderr d_hat group_type =
     (if group_type = ''control'' then Inr (scs_norm 0 stderr)
      else if group_type = ''test'' then Inr (scs_norm d_hat stderr)
      else Inl UnboundLocalError)"

section \<open>Minimum sample size\<close>

text \<open>
  The module defines \<^verbatim>\<open>min_sample_size\<close> twice. The first definition (with the
  docstring) is replaced, when the module is loaded, by the second:
  \<^verbatim>\<open>
  def min_sample_size(bcr, mde, power=0.8, sig_level=0.05):
      standard_norm = scs.norm(0, 1)
      Z_beta = standard_norm.ppf(power)
      Z_alpha = standard_norm.ppf(1-sig_level/2)
      pooled_prob = (bcr + bcr+mde) / 2
      min_N = (2 * pooled_prob * (1 - pooled_prob) * (Z_beta + Z_alpha)**2
               / mde**2)
      return min_N
  \<close>
  The two quantiles are NumPy scalars, so the division by \<^verbatim>\<open>mde**2\<close> does not raise.
  The argument \<^verbatim>\<open>power\<close> is written \<open>power'\<close>.
\<close>

definition min_sample_size_first :: "real \<Rightarrow> real \<Rightarrow> real \<Rightarrow> real \<Rightarrow> npfloat" where
  "min_sample_size_first bcr mde power' sig_level =
     (let standard_norm = scs_norm 0 1;
          Z_beta = ppf standard_norm power';
          Z_alpha = ppf standard_norm (1 - sig_level / 2);
          pooled_prob = (bcr + bcr + mde) / 2;
          min_N = np_div
                    (np_mul (Finite (2 * pooled_prob * (1 - pooled_prob)))
                            (np_square (np_add Z_beta Z_alpha)))
                    (Finite (mde ^ 2))
      in min_N)"

definition min_sample_size :: "real \<Rightarrow> real \<Rightarrow> real \<Rightarrow> real \<Rightarrow> npfloat" where
  "min_sample_size bcr mde power' sig_level =
     (let standard_norm = scs_norm 0 1;
          Z_beta = ppf standard_norm power';
          Z_alpha = ppf standard_norm (1 - sig_level / 2);
          pooled_prob = (bcr + bcr + mde) / 2;
          min_N = np_div (np_mul (Finite (2 * pooled_prob * (1 - pooled_prob)))
                                 (np_square (np_add Z_beta Z_alpha)))
                         (Finite (mde ^ 2))
      in min_N)"

section \<open>The p-value\<close>

text \<open>
  \<^verbatim>\<open>
  def p_val(N_A, N_B, p_A, d_hat):
      std_a = np.sqrt(p_A * (1 - p_A) / N_A)
      std_b = np.sqrt((p_A+d_hat) * (1 - (p_A+d_hat)) / N_B)
      z_score = (d_hat) / np.sqrt(std_a**2 + std_b**2)
      return scs.norm().sf(z_score)
  \<close>
  The two divisions by the sample sizes are divisions of Python numbers.
\<close>

definition p_val :: "real \<Rightarrow> real \<Rightarrow> real \<Rightarrow> real \<Rightarrow> error + npfloat" where
  "p_val N_A N_B p_A d_hat =
     (if N_A = 0 then Inl ZeroDivisionError
      else
        let std_a = np_sqrt (Finite (p_A * (1 - p_A) / N_A))
        in if N_B = 0 then Inl ZeroDivisionError
           else
             let std_b = np_sqrt (Finite ((p_A + d_hat) * (1 - (p_A + d_hat)) / N_B));
                 z_score = np_div (Finite d_hat)
                             (np_sqrt (np_add (np_square std_a) (np_square std_b)))
             in Inr (sf (scs_norm 0 1) z_score))"

section \<open>Series of Bernoulli trials\<close>

text \<open>
  The generator behind \<^verbatim>\<open>random\<close> is a sequence of raw draws: \<^verbatim>\<open>randbelow(n)\<close> takes the
  next draw, reduced below \<open>n\<close>, so that every outcome of the generator is some sequence.
  \<^verbatim>\<open>random.shuffle\<close> is the standard library's loop
  \<^verbatim>\<open>
  for i in reversed(range(1, len(x))):
      j = randbelow(i + 1)
      x[i], x[j] = x[j], x[i]
  \<close>
\<close>

type_synonym rng = "nat \<Rightarrow> nat"

definition randbelow :: "nat \<Rightarrow> rng \<Rightarrow> nat \<times> rng" where
  "randbelow n g = (g 0 mod n, \<lambda>k. g (Suc k))"

fun shuffle_from :: "nat \<Rightarrow> 'a list \<Rightarrow> rng \<Rightarrow> 'a list \<times> rng" where
  "shuffle_from 0 x g = (x, g)"
| "shuffle_from (Suc k) x g =
     (let i = Suc k;
          (j, g') = randbelow (i + 1) g
      in shuffle_from k (x[i := x ! j, j := x ! i]) g')"

definition shuffle :: "'a list \<Rightarrow> rng \<Rightarrow> 'a list \<times> rng" where
  "shuffle x g = shuffle_from (length x - 1) x g"

text \<open>\<^verbatim>\<open>n * xs\<close> on a Python list: the empty list when \<open>n\<close> is not positive.\<close>

definition list_times :: "int \<Rightarrow> 'a list \<Rightarrow> 'a list" where
  "list_times n xs = concat (replicate (nat n) xs)"

text \<open>
  \<^verbatim>\<open>
  def get_bernouli_series(engagment_list, success_list):
      bernouli_series = []
      for engagment, success in zip(engagment_list, success_list):
          no_list = (engagment - success) * [0]
          yes_list = (success) * [1]
          series_item = yes_list + no_list
          random.shuffle(series_item)
          bernouli_series += series_item
      return np.array(bernouli_series)
  \<close>
  \<open>series_item\<close> is the list of one period before it is shuffled, \<open>bernouli_loop\<close> the
  loop over the zipped pairs. The state of the generator is returned with the series.
\<close>

definition series_item :: "int \<times> int \<Rightarrow> int list" where
  "series_item p =
     (case p of (engagment, success) \<Rightarrow>
        let no_list = list_times (engagment - success) [0];
            yes_list = list_times success [1]
        in yes_list @ no_list)"

fun bernouli_loop :: "(int \<times> int) list \<Rightarrow> int list \<Rightarrow> rng \<Rightarrow> int list \<times> rng" where
  "bernouli_loop [] bernouli_series g = (bernouli_series, g)"
| "bernouli_loop (p # ps) bernouli_series g =
     (let (shuffled, g') = shuffle (series_item p) g
      in bernouli_loop ps (bernouli_series @ shuffled) g')"

definition get_bernouli_series :: "int list \<Rightarrow> int list \<Rightarrow> rng \<Rightarrow> int list \<times> rng" where
  "get_bernouli_series engagment_list success_list g =
     bernouli_loop (zip engagment_list success_list) [] g"

text \<open>
  The sub-range of the output that belongs to period \<open>i\<close>: it starts after the
  engagements of the periods before \<open>i\<close> and has the length of the engagement of \<open>i\<close>.
\<close>

definition period :: "int list \<Rightarrow> nat \<Rightarrow> 'a list \<Rightarrow> 'a list" where
  "period engagment_list i out =
     take (nat (engagment_list ! i)) (drop (nat (sum_list (take i engagment_list))) out)"

definition valid_pairs :: "(int \<times> int) list \<Rightarrow> bool" where
  "valid_pairs ps = list_all (\<lambda>p. 0 \<le> snd p \<and> snd p \<le> fst p) ps"

section \<open>Properties of the pooled statistics\<close>

text \<open>
  Claim C3. With \<open>N_A + N_B > 0\<close>, \<open>pooled_prob\<close> returns exactly
  \<open>(X_A + X_B) / (N_A + N_B)\<close>; for valid samples (\<open>0 \<le> X \<le> N\<close>, positive sizes) the
  result lies in \<open>[0, 1]\<close>; \<open>pooled_prob 1000 1000 100 120\<close> is \<open>0.11\<close>; and with
  \<open>N_A + N_B = 0\<close> the call fails with a division by zero.
\<close>

theorem pooled_prob_spec:
  "(0 < N_A + N_B \<longrightarrow> pooled_prob N_A N_B X_A X_B = Inr ((X_A + X_B) / (N_A + N_B)))
   \<and> (0 < N_A \<and> 0 < N_B \<and> 0 \<le> X_A \<and> X_A \<le> N_A \<and> 0 \<le> X_B \<and> X_B \<le> N_B \<longrightarrow>
        (\<exists>p. pooled_prob N_A N_B X_A X_B = Inr p \<and> 0 \<le> p \<and> p \<le> 1))
   \<and> pooled_prob 1000 1000 100 120 = Inr (11 / 100)
   \<and> (N_A + N_B = 0 \<longrightarrow> pooled_prob N_A N_B X_A X_B = Inl ZeroDivisionError)"
  by (simp add: pooled_prob_def)

theorem pooled_prob_spec_witness:
  "pooled_prob 40 60 10 15 = Inr (25 / 100)
   \<and> (\<exists>p. pooled_prob 40 60 10 15 = Inr p \<and> 0 \<le> p \<and> p \<le> 1)
   \<and> pooled_prob 5 (-5) 1 2 = Inl ZeroDivisionError"
proof -
  note spec = pooled_prob_spec [of 40 60 10 15]
  have a: "pooled_prob 40 60 10 15 = Inr (25 / 100)"
    using spec by simp
  have "(0::real) < 40 \<and> (0::real) < 60 \<and> (0::real) \<le> 10 \<and> (10::real) \<le> 40
        \<and> (0::real) \<le> 15 \<and> (15::real) \<le> 60" by simp
  with spec have b: "\<exists>p. pooled_prob 40 60 10 15 = Inr p \<and> 0 \<le> p \<and> p \<le> 1"
    by blast
  have c: "pooled_prob 5 (-5) 1 2 = Inl ZeroDivisionError"
    using pooled_prob_spec [of 5 "-5" 1 2] by simp
  from a b c show ?thesis by blast
qed

text \<open>
  Claim C9. The pooled standard error does not depend on which sample is called A:
  \<open>pooled_SE N_A N_B X_A X_B = pooled_SE N_B N_A X_B X_A\<close>, failures included.
\<close>

theorem pooled_SE_swap:
  "pooled_SE N_A N_B X_A X_B = pooled_SE N_B N_A X_B X_A"
  by (simp add: pooled_SE_def pooled_prob_def add.commute)

section \<open>Properties of the distribution of a group\<close>

text \<open>
  Claim C5. \<open>ab_dist\<close> returns the normal distribution with mean \<open>0\<close> for the group
  \<open>control\<close> and mean \<open>d_hat\<close> for the group \<open>test\<close>, with standard deviation \<open>stderr\<close>
  in both; for any other group the call fails.
\<close>

theorem ab_dist_spec:
  "ab_dist stderr d_hat ''control'' = Inr \<lparr>dist_loc = 0, dist_scale = stderr\<rparr>
   \<and> ab_dist stderr d_hat ''test'' = Inr \<lparr>dist_loc = d_hat, dist_scale = stderr\<rparr>
   \<and> (g \<noteq> ''control'' \<and> g \<noteq> ''test'' \<longrightarrow> ab_dist stderr d_hat g = Inl UnboundLocalError)"
  by (simp add: ab_dist_def scs_norm_def)

theorem ab_dist_spec_witness:
  "ab_dist 2 3 ''control'' = Inr \<lparr>dist_loc = 0, dist_scale = 2\<rparr>
   \<and> ab_dist 2 3 ''test'' = Inr \<lparr>dist_loc = 3, dist_scale = 2\<rparr>
   \<and> ab_dist 2 3 ''treatment'' = Inl UnboundLocalError"
  using ab_dist_spec [of 2 3 "''treatment''"]
  by simp

section \<open>The standard normal distribution function\<close>

text \<open>
  The series of the distribution function converges everywhere, its derivative is the
  density \<open>exp (- x\<^sup>2 / 2) / sqrt (2 pi)\<close>, so the function is continuous and strictly
  increasing, and a quantile is unique wherever it exists.
\<close>

lemma std_norm_cdf_zero: "std_norm_cdf 0 = 1 / 2"
  by (simp add: std_norm_cdf_def std_norm_term_def)

lemma std_norm_term_bound:
  "\<bar>std_norm_term x n\<bar> \<le> \<bar>x\<bar> * (inverse (fact n) * (x\<^sup>2 / 2) ^ n)"
proof -
  have e: "x ^ (2 * n + 1) = x * (x\<^sup>2) ^ n" by (simp add: power_mult)
  have t: "std_norm_term x n = x * (x\<^sup>2 / 2) ^ n / (fact n * real (2 * n + 1))"
    unfolding std_norm_term_def e by (simp add: power_divide)
  have nn: "0 \<le> (x\<^sup>2 / 2) ^ n" by simp
  have "\<bar>std_norm_term x n\<bar> = \<bar>x\<bar> * (x\<^sup>2 / 2) ^ n / (fact n * real (2 * n + 1))"
    unfolding t using nn by (simp add: abs_mult del: of_nat_add of_nat_mult)
  also have "\<dots> \<le> \<bar>x\<bar> * (x\<^sup>2 / 2) ^ n / (fact n * 1)"
    by (intro divide_left_mono mult_left_mono mult_nonneg_nonneg mult_pos_pos) simp_all
  finally show ?thesis by (simp add: field_simps)
qed

lemma summable_std_norm_term_abs: "summable (\<lambda>n. \<bar>std_norm_term x n\<bar>)"
proof (rule summable_comparison_test)
  show "\<exists>N. \<forall>n\<ge>N. norm \<bar>std_norm_term x n\<bar> \<le> \<bar>x\<bar> * (inverse (fact n) * (x\<^sup>2 / 2) ^ n)"
    using std_norm_term_bound by auto
  show "summable (\<lambda>n. \<bar>x\<bar> * (inverse (fact n) * (x\<^sup>2 / 2) ^ n))"
    by (intro summable_mult summable_exp)
qed

lemma summable_std_norm_series: "summable (\<lambda>n. (- 1) ^ n * std_norm_term x n)"
proof (rule summable_rabs_cancel)
  show "summable (\<lambda>n. \<bar>(- 1) ^ n * std_norm_term x n\<bar>)"
    using summable_std_norm_term_abs [of x] by (simp add: abs_mult power_abs)
qed

lemma std_norm_term_tendsto_zero: "(\<lambda>n. std_norm_term x n) \<longlonglongrightarrow> 0"
proof -
  have "(\<lambda>n. \<bar>std_norm_term x n\<bar>) \<longlonglongrightarrow> 0"
    by (rule summable_LIMSEQ_zero [OF summable_std_norm_term_abs])
  then show ?thesis by (simp add: tendsto_rabs_zero_iff)
qed


lemma std_norm_power_series:
  "(\<lambda>k. std_norm_coeff k * x ^ k) sums (\<Sum>n. (- 1) ^ n * std_norm_term x n)"
proof -
  let ?g = "\<lambda>n. (- 1) ^ n * std_norm_term x n"
  have "(\<lambda>k. if even k then 0 else ?g ((k - 1) div 2)) sums suminf ?g"
    by (rule sums_if' [OF summable_sums [OF summable_std_norm_series]])
  moreover have "(if even k then 0 else ?g ((k - 1) div 2)) = std_norm_coeff k * x ^ k" for k
  proof (cases "even k")
    case True
    then show ?thesis by (simp add: std_norm_coeff_def)
  next
    case False
    then have k: "2 * ((k - 1) div 2) + 1 = k" by presburger
    show ?thesis using False
      by (simp add: std_norm_coeff_def std_norm_term_def k del: of_nat_add of_nat_mult)
  qed
  ultimately show ?thesis by simp
qed

lemma diffs_std_norm_coeff:
  "diffs std_norm_coeff k =
     (if even k then (- 1) ^ (k div 2) / (2 ^ (k div 2) * fact (k div 2)) else 0)"
  by (simp add: diffs_def std_norm_coeff_def)

lemma std_norm_derived_series:
  "(\<lambda>k. diffs std_norm_coeff k * x ^ k) sums exp (- (x\<^sup>2 / 2))"
proof -
  let ?f = "\<lambda>n. (- (x\<^sup>2 / 2)) ^ n /\<^sub>R fact n"
  have z: "(\<lambda>n. 0 :: real) sums 0" by simp
  have "(\<lambda>k. if even k then ?f (k div 2) else 0) sums (0 + exp (- (x\<^sup>2 / 2)))"
    by (rule sums_if [OF z exp_converges])
  moreover have "(if even k then ?f (k div 2) else 0) = diffs std_norm_coeff k * x ^ k" for k
  proof (cases "even k")
    case True
    then obtain m where k: "k = 2 * m" by (auto elim: evenE)
    have "(- (x\<^sup>2 / 2)) ^ m = (- 1) ^ m * x ^ (2 * m) / 2 ^ m"
      by (simp add: power_minus [of "x\<^sup>2 / 2"] power_divide power_mult)
    then have "?f m = (- 1) ^ m / (2 ^ m * fact m) * x ^ (2 * m)"
      by (simp add: field_simps)
    then show ?thesis using k by (simp add: diffs_std_norm_coeff)
  next
    case False
    then show ?thesis by (simp add: diffs_std_norm_coeff)
  qed
  ultimately show ?thesis by simp
qed

lemma DERIV_std_norm_series:
  "DERIV (\<lambda>x. \<Sum>n. (- 1) ^ n * std_norm_term x n) x :> exp (- (x\<^sup>2 / 2))"
proof -
  have "DERIV (\<lambda>x. \<Sum>k. std_norm_coeff k * x ^ k) x :> (\<Sum>k. diffs std_norm_coeff k * x ^ k)"
    by (rule termdiffs_strong_converges_everywhere)
       (rule sums_summable [OF std_norm_power_series])
  moreover have "(\<Sum>k. std_norm_coeff k * y ^ k) = (\<Sum>n. (- 1) ^ n * std_norm_term y n)" for y
    by (rule sums_unique [OF std_norm_power_series, symmetric])
  moreover have "(\<Sum>k. diffs std_norm_coeff k * x ^ k) = exp (- (x\<^sup>2 / 2))"
    by (rule sums_unique [OF std_norm_derived_series, symmetric])
  ultimately show ?thesis by simp
qed

lemma DERIV_std_norm_cdf:
  "DERIV std_norm_cdf x :> exp (- (x\<^sup>2 / 2)) / sqrt (2 * pi)"
proof -
  have "DERIV (\<lambda>x. 1 / 2 + (\<Sum>n. (- 1) ^ n * std_norm_term x n) / sqrt (2 * pi)) x
          :> 0 + exp (- (x\<^sup>2 / 2)) / sqrt (2 * pi)"
    by (intro DERIV_add DERIV_const DERIV_cdivide DERIV_std_norm_series)
  then show ?thesis by (simp add: std_norm_cdf_def [abs_def])
qed

lemma std_norm_cdf_strict_mono:
  assumes "a < b"
  shows "std_norm_cdf a < std_norm_cdf b"
  using assms
proof (rule DERIV_pos_imp_increasing)
  fix x
  have "0 < exp (- (x\<^sup>2 / 2)) / sqrt (2 * pi)" by simp
  with DERIV_std_norm_cdf [of x] show "\<exists>y. DERIV std_norm_cdf x :> y \<and> 0 < y" by blast
qed

lemma std_norm_cdf_inj: "std_norm_cdf a = std_norm_cdf b \<Longrightarrow> a = b"
  using std_norm_cdf_strict_mono [of a b] std_norm_cdf_strict_mono [of b a]
  by (cases a b rule: linorder_cases) auto

lemma std_norm_quantile_eq: "std_norm_cdf z = q \<Longrightarrow> std_norm_quantile q = z"
  unfolding std_norm_quantile_def
  by (rule the_equality) (auto dest: std_norm_cdf_inj)

lemma std_norm_cdf_isCont: "isCont std_norm_cdf x"
  using DERIV_std_norm_cdf by (rule DERIV_isCont)


lemma std_norm_quantile_between:
  assumes "a \<le> b" and "std_norm_cdf a \<le> q" and "q \<le> std_norm_cdf b"
  shows "a \<le> std_norm_quantile q \<and> std_norm_quantile q \<le> b
         \<and> std_norm_cdf (std_norm_quantile q) = q"
proof -
  have "\<exists>z\<ge>a. z \<le> b \<and> std_norm_cdf z = q"
    using assms by (intro IVT) (auto simp: std_norm_cdf_isCont)
  then obtain z where z: "a \<le> z" "z \<le> b" "std_norm_cdf z = q" by blast
  then have "std_norm_quantile q = z" by (simp add: std_norm_quantile_eq)
  with z show ?thesis by simp
qed

text \<open>
  For \<open>0 < x\<close> and \<open>x\<^sup>2 \<le> 6\<close> the terms of the series decrease, so the partial sums
  enclose the sum. With Machin's formula and the series of the arc tangent the same
  argument encloses \<open>pi\<close>.
\<close>

lemma std_norm_term_decseq:
  assumes "0 \<le> x" and "x\<^sup>2 \<le> 6"
  shows "std_norm_term x (Suc n) \<le> std_norm_term x n"
proof -
  have r: "x\<^sup>2 * real (2 * n + 1) \<le> 2 * real (Suc n) * real (2 * Suc n + 1)"
  proof -
    have "x\<^sup>2 * real (2 * n + 1) \<le> 6 * real (2 * n + 1)"
      using assms(2) by (intro mult_right_mono) simp_all
    also have "\<dots> \<le> 2 * real (Suc n) * real (2 * Suc n + 1)"
    proof -
      have "6 * (2 * n + 1) \<le> 2 * Suc n * (2 * Suc n + 1)"
        by (cases n) simp_all
      then have "real (6 * (2 * n + 1)) \<le> real (2 * Suc n * (2 * Suc n + 1))"
        by (rule of_nat_mono)
      then show ?thesis by (simp add: algebra_simps)
    qed
    finally show ?thesis .
  qed
  have p: "0 \<le> x ^ (2 * n + 1)" using assms(1) by simp
  have e: "x ^ (2 * Suc n + 1) = x ^ (2 * n + 1) * x\<^sup>2"
    by (simp add: power2_eq_square)
  have "std_norm_term x (Suc n)
          = x ^ (2 * n + 1) * (x\<^sup>2 * real (2 * n + 1))
            / (2 ^ n * fact n * real (2 * n + 1) * (2 * real (Suc n) * real (2 * Suc n + 1)))"
    unfolding std_norm_term_def e by (simp del: of_nat_Suc of_nat_add of_nat_mult power_Suc add: power_Suc2 [of 2 n] fact_Suc)
  also have "\<dots> \<le> x ^ (2 * n + 1) * (2 * real (Suc n) * real (2 * Suc n + 1))
            / (2 ^ n * fact n * real (2 * n + 1) * (2 * real (Suc n) * real (2 * Suc n + 1)))"
    using r p by (intro divide_right_mono mult_left_mono) simp_all
  also have "\<dots> = std_norm_term x n"
    unfolding std_norm_term_def by (simp del: of_nat_Suc of_nat_add of_nat_mult)
  finally show ?thesis .
qed

lemma std_norm_series_bounds:
  assumes "0 < x" and "x\<^sup>2 \<le> 6"
  shows "(\<Sum>i<2 * n. (- 1) ^ i * std_norm_term x i) \<le> (\<Sum>i. (- 1) ^ i * std_norm_term x i)"
    and "(\<Sum>i. (- 1) ^ i * std_norm_term x i) \<le> (\<Sum>i<2 * n + 1. (- 1) ^ i * std_norm_term x i)"
proof -
  have m: "monoseq (std_norm_term x)"
    using assms by (intro mono_SucI2 allI std_norm_term_decseq) simp_all
  have z: "0 < std_norm_term x 0" using assms(1) by (simp add: std_norm_term_def)
  from summable_Leibniz(2) [OF std_norm_term_tendsto_zero m] z
  have "(\<Sum>i. (- 1) ^ i * std_norm_term x i)
          \<in> {\<Sum>i<2 * n. (- 1) ^ i * std_norm_term x i .. \<Sum>i<2 * n + 1. (- 1) ^ i * std_norm_term x i}"
    by blast
  then show "(\<Sum>i<2 * n. (- 1) ^ i * std_norm_term x i) \<le> (\<Sum>i. (- 1) ^ i * std_norm_term x i)"
    and "(\<Sum>i. (- 1) ^ i * std_norm_term x i) \<le> (\<Sum>i<2 * n + 1. (- 1) ^ i * std_norm_term x i)"
    by simp_all
qed

lemma arctan_series_bounds:
  assumes "0 < x" and "x \<le> 1"
  shows "(\<Sum>i<2 * n. (- 1) ^ i * (1 / real (i * 2 + 1) * x ^ (i * 2 + 1))) \<le> arctan x"
    and "arctan x \<le> (\<Sum>i<2 * n + 1. (- 1) ^ i * (1 / real (i * 2 + 1) * x ^ (i * 2 + 1)))"
proof -
  have a: "\<bar>x\<bar> \<le> 1" using assms by simp
  have z: "0 < 1 / real (0 * 2 + 1) * x ^ (0 * 2 + 1)" using assms by simp
  from summable_Leibniz(2) [OF zeroseq_arctan_series [OF a] monoseq_arctan_series [OF a]] z
  have "(\<Sum>i. (- 1) ^ i * (1 / real (i * 2 + 1) * x ^ (i * 2 + 1)))
          \<in> {\<Sum>i<2 * n. (- 1) ^ i * (1 / real (i * 2 + 1) * x ^ (i * 2 + 1)) ..
              \<Sum>i<2 * n + 1. (- 1) ^ i * (1 / real (i * 2 + 1) * x ^ (i * 2 + 1))}"
    by blast
  then show "(\<Sum>i<2 * n. (- 1) ^ i * (1 / real (i * 2 + 1) * x ^ (i * 2 + 1))) \<le> arctan x"
    and "arctan x \<le> (\<Sum>i<2 * n + 1. (- 1) ^ i * (1 / real (i * 2 + 1) * x ^ (i * 2 + 1)))"
    unfolding arctan_series [OF a] by simp_all
qed

lemma pi_bounds: "3141592 / 1000000 < pi" "pi < 3141593 / 1000000"
proof -
  have l5: "(\<Sum>i<2 * 3. (- 1) ^ i * (1 / real (i * 2 + 1) * (1 / 5) ^ (i * 2 + 1))) \<le> arctan (1 / 5)"
    by (rule arctan_series_bounds) simp_all
  have u5: "arctan (1 / 5) \<le> (\<Sum>i<2 * 2 + 1. (- 1) ^ i * (1 / real (i * 2 + 1) * (1 / 5) ^ (i * 2 + 1)))"
    by (rule arctan_series_bounds) simp_all
  have l239: "(\<Sum>i<2 * 1. (- 1) ^ i * (1 / real (i * 2 + 1) * (1 / 239) ^ (i * 2 + 1))) \<le> arctan (1 / 239)"
    by (rule arctan_series_bounds) simp_all
  have u239: "arctan (1 / 239) \<le> (\<Sum>i<2 * 1 + 1. (- 1) ^ i * (1 / real (i * 2 + 1) * (1 / 239) ^ (i * 2 + 1)))"
    by (rule arctan_series_bounds) simp_all
  have p: "pi = 16 * arctan (1 / 5) - 4 * arctan (1 / 239)"
    using machin by simp
  have l5': "1 / 5 - 1 / 375 + 1 / 15625 - 1 / 546875 + 1 / 17578125 - 1 / 537109375
               \<le> arctan (1 / 5)"
    using l5 by (simp add: eval_nat_numeral)
  have u5': "arctan (1 / 5) \<le> 1 / 5 - 1 / 375 + 1 / 15625 - 1 / 546875 + 1 / 17578125"
    using u5 by (simp add: eval_nat_numeral)
  have l239': "1 / 239 - 1 / 40955757 \<le> arctan (1 / 239)"
    using l239 by (simp add: eval_nat_numeral)
  have u239': "arctan (1 / 239) \<le> 1 / 239 - 1 / 40955757 + 1 / 3899056325995"
    using u239 by (simp add: eval_nat_numeral)
  show "3141592 / 1000000 < pi" using l5' u239' unfolding p by linarith
  show "pi < 3141593 / 1000000" using u5' l239' unfolding p by linarith
qed

lemma sqrt_two_pi_bounds:
  "2506628 / 1000000 \<le> sqrt (2 * pi)" "sqrt (2 * pi) \<le> 2506629 / 1000000"
proof -
  show "2506628 / 1000000 \<le> sqrt (2 * pi)"
    using pi_bounds(1) by (intro real_le_rsqrt) (simp add: power2_eq_square)
  show "sqrt (2 * pi) \<le> 2506629 / 1000000"
    using pi_bounds(2) by (intro real_le_lsqrt) (simp_all add: power2_eq_square)
qed

lemma std_norm_cdf_upper:
  assumes "0 < x" and "x\<^sup>2 \<le> 6"
    and "(\<Sum>i<2 * n + 1. (- 1) ^ i * std_norm_term x i) \<le> u" and "0 \<le> u"
  shows "std_norm_cdf x \<le> 1 / 2 + u / (2506628 / 1000000)"
proof -
  have "(\<Sum>i. (- 1) ^ i * std_norm_term x i) \<le> u"
    using std_norm_series_bounds(2) [OF assms(1,2), of n] assms(3) by simp
  then have "(\<Sum>i. (- 1) ^ i * std_norm_term x i) / sqrt (2 * pi) \<le> u / sqrt (2 * pi)"
    by (intro divide_right_mono) simp_all
  also have "\<dots> \<le> u / (2506628 / 1000000)"
    using sqrt_two_pi_bounds(1) assms(4) by (intro divide_left_mono mult_pos_pos) simp_all
  finally show ?thesis by (simp add: std_norm_cdf_def)
qed

lemma std_norm_cdf_lower:
  assumes "0 < x" and "x\<^sup>2 \<le> 6"
    and "l \<le> (\<Sum>i<2 * n. (- 1) ^ i * std_norm_term x i)" and "0 \<le> l"
  shows "1 / 2 + l / (2506629 / 1000000) \<le> std_norm_cdf x"
proof -
  have s: "l \<le> (\<Sum>i. (- 1) ^ i * std_norm_term x i)"
    using std_norm_series_bounds(1) [OF assms(1,2), of n] assms(3) by simp
  have "l / (2506629 / 1000000) \<le> l / sqrt (2 * pi)"
    using sqrt_two_pi_bounds(2) assms(4) by (intro divide_left_mono mult_pos_pos) simp_all
  also have "\<dots> \<le> (\<Sum>i. (- 1) ^ i * std_norm_term x i) / sqrt (2 * pi)"
    using s by (intro divide_right_mono) simp_all
  finally show ?thesis by (simp add: std_norm_cdf_def)
qed

lemma cdf_975_lower: "std_norm_cdf (96 / 49) \<le> 975 / 1000"
proof -
  have "std_norm_cdf (96 / 49) \<le> 1 / 2 + (11906 / 10000) / (2506628 / 1000000)"
  proof (rule std_norm_cdf_upper [where n = 5])
    show "(\<Sum>i<2 * 5 + 1. (- 1) ^ i * std_norm_term (96 / 49) i) \<le> 11906 / 10000"
      by (simp add: std_norm_term_def eval_nat_numeral)
  qed (simp_all add: power2_eq_square)
  also have "\<dots> \<le> 975 / 1000" by simp
  finally show ?thesis .
qed


lemma cdf_975_upper: "975 / 1000 \<le> std_norm_cdf (100 / 51)"
proof -
  have "975 / 1000 \<le> 1 / 2 + (11907 / 10000) / (2506629 / 1000000 :: real)" by simp
  also have "\<dots> \<le> std_norm_cdf (100 / 51)"
  proof (rule std_norm_cdf_lower [where n = 5])
    show "11907 / 10000 \<le> (\<Sum>i<2 * 5. (- 1) ^ i * std_norm_term (100 / 51) i)"
      by (simp add: std_norm_term_def eval_nat_numeral)
  qed (simp_all add: power2_eq_square)
  finally show ?thesis .
qed

lemma cdf_95_lower: "std_norm_cdf (97 / 59) \<le> 95 / 100"
proof -
  have "std_norm_cdf (97 / 59) \<le> 1 / 2 + (11279 / 10000) / (2506628 / 1000000)"
  proof (rule std_norm_cdf_upper [where n = 5])
    show "(\<Sum>i<2 * 5 + 1. (- 1) ^ i * std_norm_term (97 / 59) i) \<le> 11279 / 10000"
      by (simp add: std_norm_term_def eval_nat_numeral)
  qed (simp_all add: power2_eq_square)
  also have "\<dots> \<le> 95 / 100" by simp
  finally show ?thesis .
qed

lemma cdf_95_upper: "95 / 100 \<le> std_norm_cdf (79 / 48)"
proof -
  have "95 / 100 \<le> 1 / 2 + (11281 / 10000) / (2506629 / 1000000 :: real)" by simp
  also have "\<dots> \<le> std_norm_cdf (79 / 48)"
  proof (rule std_norm_cdf_lower [where n = 5])
    show "11281 / 10000 \<le> (\<Sum>i<2 * 5. (- 1) ^ i * std_norm_term (79 / 48) i)"
      by (simp add: std_norm_term_def eval_nat_numeral)
  qed (simp_all add: power2_eq_square)
  finally show ?thesis .
qed


lemma quantile_975:
  "96 / 49 \<le> std_norm_quantile (975 / 1000) \<and> std_norm_quantile (975 / 1000) \<le> 100 / 51
   \<and> std_norm_cdf (std_norm_quantile (975 / 1000)) = 975 / 1000"
  by (rule std_norm_quantile_between [OF _ cdf_975_lower cdf_975_upper]) simp

lemma quantile_95:
  "97 / 59 \<le> std_norm_quantile (95 / 100) \<and> std_norm_quantile (95 / 100) \<le> 79 / 48
   \<and> std_norm_cdf (std_norm_quantile (95 / 100)) = 95 / 100"
  by (rule std_norm_quantile_between [OF _ cdf_95_lower cdf_95_upper]) simp



section \<open>Properties of the critical value\<close>

text \<open>
  Claim C8. \<open>z_val\<close> returns the standard normal quantile at \<open>1 - sig_level / 2\<close>
  when the test is two-tailed and at \<open>1 - sig_level\<close> when it is not; the two-tailed
  values at the levels \<open>0.05\<close> and \<open>0.10\<close> are quantiles within \<open>0.001\<close> of \<open>1.95996\<close> and
  \<open>1.64485\<close>.
\<close>

theorem z_val_spec:
  "z_val sig_level True = ppf (scs_norm 0 1) (1 - sig_level / 2)
   \<and> z_val sig_level False = ppf (scs_norm 0 1) (1 - sig_level)
   \<and> (\<exists>z. z_val (5 / 100) True = Finite z \<and> std_norm_cdf z = 1 - (5 / 100) / 2
          \<and> \<bar>z - 195996 / 100000\<bar> \<le> 1 / 1000)
   \<and> (\<exists>z. z_val (10 / 100) True = Finite z \<and> std_norm_cdf z = 1 - (10 / 100) / 2
          \<and> \<bar>z - 164485 / 100000\<bar> \<le> 1 / 1000)"
proof -
  have a: "z_val sig_level True = ppf (scs_norm 0 1) (1 - sig_level / 2)"
    and b: "z_val sig_level False = ppf (scs_norm 0 1) (1 - sig_level)"
    by (simp_all add: z_val_def)
  have c: "z_val (5 / 100) True = Finite (std_norm_quantile (975 / 1000))"
    by (simp add: z_val_def ppf_def scs_norm_def)
  have d: "z_val (10 / 100) True = Finite (std_norm_quantile (95 / 100))"
    by (simp add: z_val_def ppf_def scs_norm_def)
  have c': "\<bar>std_norm_quantile (975 / 1000) - 195996 / 100000\<bar> \<le> 1 / 1000"
  proof -
    from quantile_975 have "96 / 49 \<le> std_norm_quantile (975 / 1000)"
      and "std_norm_quantile (975 / 1000) \<le> 100 / 51" by blast+
    then show ?thesis unfolding abs_le_iff by linarith
  qed
  have d': "\<bar>std_norm_quantile (95 / 100) - 164485 / 100000\<bar> \<le> 1 / 1000"
  proof -
    from quantile_95 have "97 / 59 \<le> std_norm_quantile (95 / 100)"
      and "std_norm_quantile (95 / 100) \<le> 79 / 48" by blast+
    then show ?thesis unfolding abs_le_iff by linarith
  qed
  have e: "\<exists>z. z_val (5 / 100) True = Finite z \<and> std_norm_cdf z = 1 - (5 / 100) / 2
          \<and> \<bar>z - 195996 / 100000\<bar> \<le> 1 / 1000"
    using c c' quantile_975 by (intro exI [of _ "std_norm_quantile (975 / 1000)"]) simp
  have f: "\<exists>z. z_val (10 / 100) True = Finite z \<and> std_norm_cdf z = 1 - (10 / 100) / 2
          \<and> \<bar>z - 164485 / 100000\<bar> \<le> 1 / 1000"
    using d d' quantile_95 by (intro exI [of _ "std_norm_quantile (95 / 100)"]) simp
  from a b e f show ?thesis by blast
qed

section \<open>Properties of the p-value\<close>

lemma z_score_zero:
  assumes "0 < a" and "0 < b"
  shows "np_div (Finite 0)
           (np_sqrt (np_add (np_square (np_sqrt (Finite a))) (np_square (np_sqrt (Finite b)))))
         = Finite 0"
proof -
  have sa: "sqrt a * sqrt a = a" and sb: "sqrt b * sqrt b = b"
    using assms by simp_all
  have "np_add (np_square (np_sqrt (Finite a))) (np_square (np_sqrt (Finite b))) = Finite (a + b)"
    using assms by (simp add: np_square_def sa sb)
  moreover have "0 < a + b" using assms by simp
  ultimately show ?thesis by simp
qed

text \<open>
  Claim C6. For positive sample sizes and \<open>p_A\<close> strictly between \<open>0\<close> and \<open>1\<close>, the
  p-value of a zero effect is \<open>1/2\<close>: the z-score is \<open>0\<close>, and the survival function of
  the standard normal distribution at \<open>0\<close> is \<open>1/2\<close>.
\<close>

theorem p_val_zero_effect:
  assumes "0 < N_A" and "0 < N_B" and "0 < p_A" and "p_A < 1"
  shows "p_val N_A N_B p_A 0 = Inr (Finite (1 / 2))"
proof -
  have a: "0 < p_A * (1 - p_A) / N_A" using assms by simp
  have b: "0 < p_A * (1 - p_A) / N_B" using assms by simp
  show ?thesis
    using assms z_score_zero [OF a b]
    by (simp add: p_val_def Let_def sf_def scs_norm_def std_norm_cdf_zero)
qed

theorem p_val_zero_effect_witness:
  "p_val 1000 1000 (1 / 10) 0 = Inr (Finite (1 / 2))"
  using p_val_zero_effect [of 1000 1000 "1 / 10"] by simp

section \<open>Properties of the minimum sample size\<close>

lemma np_div_zero_not_finite: "\<not> is_finite (np_div a (Finite 0))"
  by (cases a) (simp_all add: np_inf_def sgn_real_def)

text \<open>
  Claim C1. \<open>min_sample_size\<close> returns
  \<open>2 * pooledP * (1 - pooledP) * (Z_beta + Z_alpha)\<^sup>2 / mde\<^sup>2\<close> with
  \<open>pooledP = (bcr + (bcr + mde)) / 2\<close>, \<open>Z_beta\<close> the standard normal quantile at the
  power and \<open>Z_alpha\<close> the quantile at \<open>1 - sig_level / 2\<close>: for all inputs in the
  arithmetic of NumPy scalars, and as a finite real number when \<open>mde\<close> is not zero and
  both quantiles are finite. With \<open>mde = 0\<close> the result is not a finite number.
\<close>

theorem min_sample_size_formula:
  "min_sample_size bcr mde power' sig_level =
     np_div (np_mul (Finite (2 * ((bcr + (bcr + mde)) / 2) * (1 - (bcr + (bcr + mde)) / 2)))
                    (np_square (np_add (ppf (scs_norm 0 1) power')
                                       (ppf (scs_norm 0 1) (1 - sig_level / 2)))))
            (Finite (mde ^ 2))
   \<and> (mde \<noteq> 0 \<and> 0 < power' \<and> power' < 1 \<and> 0 < sig_level \<and> sig_level < 2 \<longrightarrow>
        min_sample_size bcr mde power' sig_level =
          Finite (2 * ((bcr + (bcr + mde)) / 2) * (1 - (bcr + (bcr + mde)) / 2)
                  * (std_norm_quantile power' + std_norm_quantile (1 - sig_level / 2)) ^ 2
                  / mde ^ 2))
   \<and> (mde = 0 \<longrightarrow> \<not> is_finite (min_sample_size bcr mde power' sig_level))"
proof -
  have a: "min_sample_size bcr mde power' sig_level =
     np_div (np_mul (Finite (2 * ((bcr + (bcr + mde)) / 2) * (1 - (bcr + (bcr + mde)) / 2)))
                    (np_square (np_add (ppf (scs_norm 0 1) power')
                                       (ppf (scs_norm 0 1) (1 - sig_level / 2)))))
            (Finite (mde ^ 2))"
    by (simp add: min_sample_size_def Let_def add.assoc)
  have b: "min_sample_size bcr mde power' sig_level =
          Finite (2 * ((bcr + (bcr + mde)) / 2) * (1 - (bcr + (bcr + mde)) / 2)
                  * (std_norm_quantile power' + std_norm_quantile (1 - sig_level / 2)) ^ 2
                  / mde ^ 2)"
    if "mde \<noteq> 0 \<and> 0 < power' \<and> power' < 1 \<and> 0 < sig_level \<and> sig_level < 2"
    using that unfolding a by (simp add: ppf_def scs_norm_def np_square_def power2_eq_square)
  have c: "\<not> is_finite (min_sample_size bcr mde power' sig_level)" if "mde = 0"
    unfolding a using that by (simp add: np_div_zero_not_finite)
  from a b c show ?thesis by blast
qed

theorem min_sample_size_formula_witness:
  "min_sample_size (1 / 10) (2 / 100) (8 / 10) (5 / 100) =
     Finite (2 * (11 / 100) * (1 - 11 / 100)
             * (std_norm_quantile (8 / 10) + std_norm_quantile (1 - (5 / 100) / 2)) ^ 2
             / (2 / 100) ^ 2)
   \<and> \<not> is_finite (min_sample_size (1 / 10) 0 (8 / 10) (5 / 100))"
proof -
  note t = min_sample_size_formula [of "1 / 10" "2 / 100" "8 / 10" "5 / 100"]
  have h: "(2 / 100 :: real) \<noteq> 0 \<and> (0 :: real) < 8 / 10 \<and> (8 / 10 :: real) < 1
           \<and> (0 :: real) < 5 / 100 \<and> (5 / 100 :: real) < 2" by simp
  from t h have "min_sample_size (1 / 10) (2 / 100) (8 / 10) (5 / 100) =
          Finite (2 * ((1 / 10 + (1 / 10 + 2 / 100)) / 2) * (1 - (1 / 10 + (1 / 10 + 2 / 100)) / 2)
                  * (std_norm_quantile (8 / 10) + std_norm_quantile (1 - (5 / 100) / 2)) ^ 2
                  / (2 / 100) ^ 2)" by blast
  then have a: "min_sample_size (1 / 10) (2 / 100) (8 / 10) (5 / 100) =
     Finite (2 * (11 / 100) * (1 - 11 / 100)
             * (std_norm_quantile (8 / 10) + std_norm_quantile (1 - (5 / 100) / 2)) ^ 2
             / (2 / 100) ^ 2)" by simp
  have b: "\<not> is_finite (min_sample_size (1 / 10) 0 (8 / 10) (5 / 100))"
    using min_sample_size_formula [of "1 / 10" 0 "8 / 10" "5 / 100"] by blast
  from a b show ?thesis by blast
qed

text \<open>
  Claim C4. The two definitions of \<open>min_sample_size\<close> in the module return the same
  value on every input.
\<close>

theorem min_sample_size_duplicate:
  "min_sample_size_first bcr mde power' sig_level = min_sample_size bcr mde power' sig_level"
  by (simp add: min_sample_size_first_def min_sample_size_def)








section \<open>Properties of the series of Bernoulli trials\<close>

text \<open>A shuffle permutes its list, whatever the generator draws.\<close>

lemma shuffle_from_mset:
  "k < length x \<Longrightarrow> mset (fst (shuffle_from k x g)) = mset x"
proof (induction k arbitrary: x g)
  case 0
  then show ?case by simp
next
  case (Suc k)
  obtain j g' where r: "randbelow (Suc k + 1) g = (j, g')" by (cases "randbelow (Suc k + 1) g")
  then have j: "j < Suc k + 1" by (auto simp: randbelow_def)
  with Suc.prems have jl: "j < length x" by simp
  have "mset (x[Suc k := x ! j, j := x ! Suc k]) = mset x"
    using Suc.prems jl by (simp add: mset_swap)
  moreover have "k < length (x[Suc k := x ! j, j := x ! Suc k])" using Suc.prems by simp
  ultimately show ?case using Suc.IH r by simp
qed

lemma shuffle_mset: "mset (fst (shuffle x g)) = mset x"
proof (cases x)
  case Nil
  then show ?thesis by (simp add: shuffle_def)
next
  case (Cons a as)
  then show ?thesis by (simp add: shuffle_def shuffle_from_mset)
qed

lemma bernouli_loop_blocks:
  "\<exists>blocks. fst (bernouli_loop ps acc g) = acc @ concat blocks
     \<and> list_all2 (\<lambda>b p. mset b = mset (series_item p)) blocks ps"
proof (induction ps arbitrary: acc g)
  case Nil
  then show ?case by simp
next
  case (Cons p ps)
  obtain sh g' where s: "shuffle (series_item p) g = (sh, g')" by (cases "shuffle (series_item p) g")
  then have m: "mset sh = mset (series_item p)" using shuffle_mset [of "series_item p" g] by simp
  from Cons.IH [of "acc @ sh" g'] obtain blocks where
    b: "fst (bernouli_loop ps (acc @ sh) g') = (acc @ sh) @ concat blocks"
       "list_all2 (\<lambda>b p. mset b = mset (series_item p)) blocks ps" by blast
  have "fst (bernouli_loop (p # ps) acc g) = acc @ concat (sh # blocks)"
    using s b(1) by simp
  moreover have "list_all2 (\<lambda>b p. mset b = mset (series_item p)) (sh # blocks) (p # ps)"
    using m b(2) by simp
  ultimately show ?case by blast
qed

lemma concat_nth_block:
  "i < length bs \<Longrightarrow>
     take (length (bs ! i)) (drop (length (concat (take i bs))) (concat bs)) = bs ! i"
proof -
  assume "i < length bs"
  then have "bs = take i bs @ bs ! i # drop (Suc i) bs" by (rule id_take_nth_drop)
  then have "concat bs = concat (take i bs) @ bs ! i @ concat (drop (Suc i) bs)"
    by (metis concat.simps(2) concat_append)
  then show ?thesis by simp
qed


lemma list_times_single: "list_times n [a] = replicate (nat n) a"
  unfolding list_times_def by (induction "nat n") (simp_all add: replicate_app_Cons_same)

lemma series_item_eq:
  "series_item (e, s) = replicate (nat s) 1 @ replicate (nat (e - s)) 0"
  by (simp add: series_item_def list_times_single)

lemma count_list_repl: "count_list (replicate n a) b = (if a = b then n else 0)"
  by (induction n) auto

lemma series_item_ones: "count_list (series_item (e, s)) 1 = nat s"
  by (simp add: series_item_eq count_list_append count_list_repl)

lemma blocks_mset_concat:
  "list_all2 (\<lambda>b p. mset b = mset (series_item p)) blocks ps \<Longrightarrow>
     mset (concat blocks) = mset (concat (map series_item ps))"
  by (induction blocks ps rule: list_all2_induct) simp_all

lemma blocks_lengths:
  "list_all2 (\<lambda>b p. mset b = mset (series_item p)) blocks ps \<Longrightarrow>
     map length blocks = map (\<lambda>p. length (series_item p)) ps"
proof (induction blocks ps rule: list_all2_induct)
  case Nil
  then show ?case by simp
next
  case (Cons b bs p ps)
  from Cons.hyps(1) have "size (mset b) = size (mset (series_item p))" by simp
  with Cons.IH show ?case by simp
qed

lemma valid_item_length:
  "0 \<le> s \<Longrightarrow> s \<le> e \<Longrightarrow> length (series_item (e, s)) = nat e"
  by (simp add: series_item_eq) 

lemma valid_lengths:
  "valid_pairs ps \<Longrightarrow> map (\<lambda>p. length (series_item p)) ps = map (\<lambda>p. nat (fst p)) ps"
  by (induction ps) (auto simp: valid_pairs_def valid_item_length)

lemma valid_sum_nat:
  "valid_pairs ps \<Longrightarrow> sum_list (map (\<lambda>p. nat (fst p)) ps) = nat (sum_list (map fst ps))
     \<and> 0 \<le> sum_list (map fst ps)"
  by (induction ps) (auto simp: valid_pairs_def nat_add_distrib)

lemma valid_unshuffled:
  "valid_pairs ps \<Longrightarrow>
     int (length (concat (map series_item ps))) = sum_list (map fst ps)
     \<and> int (count_list (concat (map series_item ps)) 1) = sum_list (map snd ps)
     \<and> set (concat (map series_item ps)) \<subseteq> {0, 1}"
proof (induction ps)
  case Nil
  then show ?case by simp
next
  case (Cons p ps)
  obtain e s where p: "p = (e, s)" by (cases p)
  from Cons.prems p have v: "0 \<le> s" "s \<le> e" "valid_pairs ps" by (simp_all add: valid_pairs_def)
  have st: "set (series_item (e, s)) \<subseteq> {0, 1}"
    by (auto simp: series_item_eq)
  show ?case using Cons.IH [OF v(3)] v(1,2) p st
    by (simp add: valid_item_length count_list_append series_item_ones)
qed

lemma valid_pairs_zip:
  "length es = length ss \<Longrightarrow> \<forall>i<length es. 0 \<le> ss ! i \<and> ss ! i \<le> es ! i \<Longrightarrow>
     valid_pairs (zip es ss)"
  by (auto simp: valid_pairs_def list_all_length)

lemma valid_pairs_take: "valid_pairs ps \<Longrightarrow> valid_pairs (take i ps)"
  by (auto simp: valid_pairs_def list_all_length)

lemma bernouli_loop_valid_length:
  assumes "valid_pairs ps"
  shows "int (length (fst (bernouli_loop ps [] g))) = sum_list (map fst ps)"
proof -
  obtain blocks where out: "fst (bernouli_loop ps [] g) = concat blocks"
    and all2: "list_all2 (\<lambda>b p. mset b = mset (series_item p)) blocks ps"
    using bernouli_loop_blocks [of ps "[]" g] by auto
  have "mset (fst (bernouli_loop ps [] g)) = mset (concat (map series_item ps))"
    using blocks_mset_concat [OF all2] out by simp
  then have "length (fst (bernouli_loop ps [] g)) = length (concat (map series_item ps))"
    by (rule mset_eq_length)
  then show ?thesis using valid_unshuffled [OF assms] by simp
qed

lemma zip_take_min:
  "zip (take (min (length xs) (length ys)) xs) (take (min (length xs) (length ys)) ys) = zip xs ys"
  by (simp add: take_zip [symmetric])


text \<open>
  Claim C2. For engagement and success counts of equal length with
  \<open>0 \<le> success \<le> engagement\<close> at every index, and for every outcome of the
  generator, the series consists of zeros and ones, its length is the sum of the
  engagements, its number of ones is the sum of the successes, and the sub-range of
  period \<open>i\<close> holds exactly the outcomes of period \<open>i\<close> in some order, so that it has
  \<open>success ! i\<close> ones: the shuffles reorder within a period only.
\<close>

theorem get_bernouli_series_counts:
  assumes len: "length engagment_list = length success_list"
    and val: "\<forall>i<length engagment_list.
                0 \<le> success_list ! i \<and> success_list ! i \<le> engagment_list ! i"
  shows "set (fst (get_bernouli_series engagment_list success_list g)) \<subseteq> {0, 1}
    \<and> int (length (fst (get_bernouli_series engagment_list success_list g)))
        = sum_list engagment_list
    \<and> int (count_list (fst (get_bernouli_series engagment_list success_list g)) 1)
        = sum_list success_list
    \<and> (\<forall>i<length engagment_list.
          int (count_list
                (period engagment_list i
                   (fst (get_bernouli_series engagment_list success_list g))) 1)
            = success_list ! i
          \<and> mset (period engagment_list i
                   (fst (get_bernouli_series engagment_list success_list g)))
            = mset (series_item (engagment_list ! i, success_list ! i)))"
proof -
  let ?ps = "zip engagment_list success_list"
  let ?out = "fst (get_bernouli_series engagment_list success_list g)"
  have vp: "valid_pairs ?ps" using len val by (rule valid_pairs_zip)
  obtain blocks where out: "?out = concat blocks"
    and all2: "list_all2 (\<lambda>b p. mset b = mset (series_item p)) blocks ?ps"
    using bernouli_loop_blocks [of ?ps "[]" g] by (auto simp: get_bernouli_series_def)
  have ms: "mset ?out = mset (concat (map series_item ?ps))"
    using blocks_mset_concat [OF all2] out by simp
  have fst_ps: "map fst ?ps = engagment_list" and snd_ps: "map snd ?ps = success_list"
    using len by simp_all
  note u = valid_unshuffled [OF vp, unfolded fst_ps snd_ps]
  have s1: "set ?out \<subseteq> {0, 1}"
    using u mset_eq_setD [OF ms] by simp
  have s2: "int (length ?out) = sum_list engagment_list"
    using u mset_eq_length [OF ms] by simp
  have "count_list ?out 1 = count_list (concat (map series_item ?ps)) 1"
    using ms by (metis count_mset)
  then have s3: "int (count_list ?out 1) = sum_list success_list"
    using u by simp
  have lens: "map length blocks = map (\<lambda>p. nat (fst p)) ?ps"
    using blocks_lengths [OF all2] valid_lengths [OF vp] by simp
  have lb: "length blocks = length engagment_list"
    using list_all2_lengthD [OF all2] len by simp
  have s4: "int (count_list (period engagment_list i ?out) 1) = success_list ! i
            \<and> mset (period engagment_list i ?out)
               = mset (series_item (engagment_list ! i, success_list ! i))"
    if i: "i < length engagment_list" for i
  proof -
    have ib: "i < length blocks" using i lb by simp
    have ip: "i < length ?ps" using i len by simp
    have "length (blocks ! i) = map length blocks ! i" using ib by simp
    also have "\<dots> = nat (engagment_list ! i)" using lens ip i len by simp
    finally have l1: "length (blocks ! i) = nat (engagment_list ! i)" .
    have "length (concat (take i blocks)) = sum_list (map length (take i blocks))"
      by (simp add: length_concat)
    also have "\<dots> = sum_list (take i (map length blocks))" by (simp add: take_map)
    also have "\<dots> = sum_list (map (\<lambda>p. nat (fst p)) (take i ?ps))"
      using lens by (simp add: take_map)
    also have "\<dots> = nat (sum_list (map fst (take i ?ps)))"
      using valid_sum_nat [OF valid_pairs_take [OF vp]] by simp
    also have "map fst (take i ?ps) = take i engagment_list"
      using fst_ps by (metis take_map)
    finally have l2: "length (concat (take i blocks)) = nat (sum_list (take i engagment_list))" .
    have blk: "period engagment_list i ?out = blocks ! i"
      using concat_nth_block [OF ib] l1 l2 out by (simp add: period_def)
    have m: "mset (blocks ! i) = mset (series_item (?ps ! i))"
      using all2 ib by (simp add: list_all2_conv_all_nth)
    have psi: "?ps ! i = (engagment_list ! i, success_list ! i)" using i len by simp
    from val i have v: "0 \<le> success_list ! i" "success_list ! i \<le> engagment_list ! i" by simp_all
    have "count_list (blocks ! i) 1 = count_list (series_item (engagment_list ! i, success_list ! i)) 1"
      using m psi by (metis count_mset)
    also have "\<dots> = nat (success_list ! i)"
      by (rule series_item_ones)
    finally show ?thesis using blk m psi v by simp
  qed
  from s1 s2 s3 s4 show ?thesis by blast
qed


theorem get_bernouli_series_counts_witness:
  "set (fst (get_bernouli_series [10, 10] [3, 7] (\<lambda>k. 7 * k + 3))) \<subseteq> {0, 1}
   \<and> int (length (fst (get_bernouli_series [10, 10] [3, 7] (\<lambda>k. 7 * k + 3)))) = 20
   \<and> int (count_list (fst (get_bernouli_series [10, 10] [3, 7] (\<lambda>k. 7 * k + 3))) 1) = 10
   \<and> int (count_list (period [10, 10] 0
            (fst (get_bernouli_series [10, 10] [3, 7] (\<lambda>k. 7 * k + 3)))) 1) = 3
   \<and> int (count_list (period [10, 10] 1
            (fst (get_bernouli_series [10, 10] [3, 7] (\<lambda>k. 7 * k + 3)))) 1) = 7"
proof -
  have l: "length [10, 10 :: int] = length [3, 7 :: int]" by simp
  have v: "\<forall>i<length [10, 10 :: int].
             0 \<le> [3, 7 :: int] ! i \<and> [3, 7 :: int] ! i \<le> [10, 10 :: int] ! i"
    by (simp add: less_Suc_eq numeral_2_eq_2 nth_Cons')
  note t = get_bernouli_series_counts [OF l v, of "\<lambda>k. 7 * k + 3"]
  have p0: "(0::nat) < length [10, 10 :: int]" and p1: "(1::nat) < length [10, 10 :: int]"
    by simp_all
  from t p0 have c0: "int (count_list (period [10, 10] 0
            (fst (get_bernouli_series [10, 10] [3, 7] (\<lambda>k. 7 * k + 3)))) 1) = [3, 7] ! 0"
    by blast
  from t p1 have c1: "int (count_list (period [10, 10] 1
            (fst (get_bernouli_series [10, 10] [3, 7] (\<lambda>k. 7 * k + 3)))) 1) = [3, 7] ! 1"
    by blast
  from t c0 c1 show ?thesis by simp
qed

lemma series_item_length:
  "int (length (series_item p)) = (case p of (e, s) \<Rightarrow> max 0 s + max 0 (e - s))"
  by (cases p) (simp add: series_item_eq max_def)

lemma bernouli_loop_length:
  "int (length (fst (bernouli_loop ps [] g)))
     = sum_list (map (\<lambda>(e, s). max 0 s + max 0 (e - s)) ps)"
proof -
  obtain blocks where out: "fst (bernouli_loop ps [] g) = concat blocks"
    and all2: "list_all2 (\<lambda>b p. mset b = mset (series_item p)) blocks ps"
    using bernouli_loop_blocks [of ps "[]" g] by auto
  have "int (length (concat blocks)) = int (sum_list (map length blocks))"
    by (simp add: length_concat)
  also have "\<dots> = int (sum_list (map (\<lambda>p. length (series_item p)) ps))"
    by (simp only: blocks_lengths [OF all2])
  also have "\<dots> = sum_list (map (\<lambda>p. int (length (series_item p))) ps)"
    by (induction ps) simp_all
  also have "\<dots> = sum_list (map (\<lambda>(e, s). max 0 s + max 0 (e - s)) ps)"
    by (simp only: series_item_length)
  finally show ?thesis using out by simp
qed

text \<open>
  Claim C10. When the two lists differ in length nothing fails: the pairs are those of
  \<^verbatim>\<open>zip\<close>, the result is the one for both lists cut to the shorter length, and for
  counts with \<open>0 \<le> success \<le> engagement\<close> in these pairs its length is the sum of the
  engagements of these pairs. (For any counts, a pair contributes its positive part of
  \<open>success\<close> and of \<open>engagement - success\<close>.)
\<close>

theorem get_bernouli_series_zip_truncation:
  "get_bernouli_series engagment_list success_list g
     = get_bernouli_series
         (take (min (length engagment_list) (length success_list)) engagment_list)
         (take (min (length engagment_list) (length success_list)) success_list) g
   \<and> ((\<forall>i<min (length engagment_list) (length success_list).
          0 \<le> success_list ! i \<and> success_list ! i \<le> engagment_list ! i) \<longrightarrow>
        int (length (fst (get_bernouli_series engagment_list success_list g)))
          = sum_list (take (min (length engagment_list) (length success_list)) engagment_list))
   \<and> int (length (fst (get_bernouli_series engagment_list success_list g)))
       = sum_list (map (\<lambda>(e, s). max 0 s + max 0 (e - s)) (zip engagment_list success_list))"
proof -
  let ?n = "min (length engagment_list) (length success_list)"
  have a: "get_bernouli_series engagment_list success_list g
             = get_bernouli_series (take ?n engagment_list) (take ?n success_list) g"
    by (simp only: get_bernouli_series_def zip_take_min)
  have b: "int (length (fst (get_bernouli_series engagment_list success_list g)))
             = sum_list (take ?n engagment_list)"
    if v: "\<forall>i<?n. 0 \<le> success_list ! i \<and> success_list ! i \<le> engagment_list ! i"
  proof -
    have "valid_pairs (zip engagment_list success_list)"
      using v by (auto simp: valid_pairs_def list_all_length)
    then have "int (length (fst (get_bernouli_series engagment_list success_list g)))
                 = sum_list (map fst (zip engagment_list success_list))"
      unfolding get_bernouli_series_def by (rule bernouli_loop_valid_length)
    also have "map fst (zip engagment_list success_list) = take ?n engagment_list"
      by (metis map_fst_zip_take min.commute)
    finally show ?thesis .
  qed
  have c: "int (length (fst (get_bernouli_series engagment_list success_list g)))
             = sum_list (map (\<lambda>(e, s). max 0 s + max 0 (e - s)) (zip engagment_list success_list))"
    unfolding get_bernouli_series_def by (rule bernouli_loop_length)
  from a b c show ?thesis by blast
qed

theorem get_bernouli_series_zip_truncation_witness:
  "get_bernouli_series [3, 2, 5] [1, 2] (\<lambda>k. k * k + 1)
     = get_bernouli_series [3, 2] [1, 2] (\<lambda>k. k * k + 1)
   \<and> int (length (fst (get_bernouli_series [3, 2, 5] [1, 2] (\<lambda>k. k * k + 1)))) = 5"
proof -
  have v: "\<forall>i<min (length [3, 2, 5 :: int]) (length [1, 2 :: int]).
             0 \<le> [1, 2 :: int] ! i \<and> [1, 2 :: int] ! i \<le> [3, 2, 5 :: int] ! i"
    by (simp add: less_Suc_eq numeral_2_eq_2 nth_Cons')
  note t = get_bernouli_series_zip_truncation [of "[3, 2, 5]" "[1, 2]" "\<lambda>k. k * k + 1"]
  from t have e: "get_bernouli_series [3, 2, 5] [1, 2] (\<lambda>k. k * k + 1)
                    = get_bernouli_series [3, 2] [1, 2] (\<lambda>k. k * k + 1)"
    by simp
  from t v have "int (length (fst (get_bernouli_series [3, 2, 5] [1, 2] (\<lambda>k. k * k + 1))))
                   = sum_list (take (min (length [3, 2, 5 :: int]) (length [1, 2 :: int])) [3, 2, 5])"
    by blast
  then have f: "int (length (fst (get_bernouli_series [3, 2, 5] [1, 2] (\<lambda>k. k * k + 1)))) = 5"
    by simp
  from e f show ?thesis by blast
qed

end
